theory Spec2Isabelle
  imports Main "HOL-Library.AList"
begin

section \<open>JavaScript strings\<close>

text \<open>
  The catalog is a React component written in TypeScript.  Its strings are modelled as
  \<^typ>\<open>string\<close>, one \<^typ>\<open>char\<close> per code unit, the 256 values being read as the
  code points U+0000 to U+00FF.  The string methods the catalog calls are written out
  below for that range.
\<close>

definition lower_char :: "char \<Rightarrow> char" where
  \<comment> \<open>One code unit of \<open>String.prototype.toLowerCase\<close>: A-Z, and the capital letters
      U+00C0 to U+00DE except the multiplication sign U+00D7, move up by 32.\<close>
  "lower_char c =
     (let n = (of_char c :: nat)
      in if (65 \<le> n \<and> n \<le> 90) \<or> (192 \<le> n \<and> n \<le> 214) \<or> (216 \<le> n \<and> n \<le> 222)
         then char_of (n + 32) else c)"

definition toLowerCase :: "string \<Rightarrow> string" where
  "toLowerCase s = map lower_char s"

definition is_space :: "char \<Rightarrow> bool" where
  \<comment> \<open>White space and line terminators of ECMAScript below U+0100.\<close>
  "is_space c = ((of_char c :: nat) \<in> {9, 10, 11, 12, 13, 32, 160})"

definition trim :: "string \<Rightarrow> string" where
  "trim s = rev (dropWhile is_space (rev (dropWhile is_space s)))"

definition startsWith :: "string \<Rightarrow> string \<Rightarrow> bool" where
  "startsWith s t = (take (length t) s = t)"

fun js_includes :: "string \<Rightarrow> string \<Rightarrow> bool" where
  \<comment> \<open>\<open>s.includes(t)\<close>: \<open>t\<close> occurs in \<open>s\<close> as a contiguous run.\<close>
  "js_includes [] t = (t = [])"
| "js_includes (c # cs) t = (startsWith (c # cs) t \<or> js_includes cs t)"

fun js_split :: "char \<Rightarrow> string \<Rightarrow> string list" where
  \<comment> \<open>\<open>s.split(sep)\<close> for a one-character separator; the empty string gives one
      empty segment.\<close>
  "js_split sep [] = [[]]"
| "js_split sep (c # cs) =
     (if c = sep then [] # js_split sep cs
      else (case js_split sep cs of [] \<Rightarrow> [[c]] | p # ps \<Rightarrow> (c # p) # ps))"

definition replace_backslashes :: "string \<Rightarrow> string" where
  \<comment> \<open>\<open>s.replace(/\\/g, '/')\<close>\<close>
  "replace_backslashes s = map (\<lambda>c. if c = CHR 0x5C then CHR ''/'' else c) s"

definition strip_trailing_slash :: "string \<Rightarrow> string" where
  \<comment> \<open>\<open>s.replace(/\/$/, '')\<close>: the pattern has no \<open>m\<close> flag, so \<open>$\<close> is the end of
      the input and at most the last character goes.\<close>
  "strip_trailing_slash s = (if s \<noteq> [] \<and> last s = CHR ''/'' then butlast s else s)"

section \<open>Path exclusion\<close>

text \<open>
  \<open>isPathIgnored\<close> closes over \<open>advancedSettings.ignoredDirectories\<close>; the model takes
  the list as its first argument.  \<open>compare_segments\<close> is the \<open>for\<close> loop of the
  callback, \<open>dir_matches\<close> the callback given to \<open>some\<close>.
\<close>

function compare_segments :: "nat \<Rightarrow> string list \<Rightarrow> string list \<Rightarrow> bool" where
  "compare_segments i dirParts pathParts =
     (if i < length dirParts
      then (if toLowerCase (dirParts ! i) \<noteq> toLowerCase (pathParts ! i) then False
            else compare_segments (i + 1) dirParts pathParts)
      else True)"
  by pat_completeness auto
termination
  by (relation "measure (\<lambda>(i, dirParts, pathParts). length dirParts - i)") auto

declare compare_segments.simps [simp del]

definition dir_matches :: "string \<Rightarrow> string \<Rightarrow> bool" where
  "dir_matches filePath dir =
     (let normalizedDir = strip_trailing_slash (replace_backslashes dir);
          normalizedPath = replace_backslashes filePath;
          dirParts = js_split CHR ''/'' normalizedDir;
          pathParts = js_split CHR ''/'' normalizedPath
      in if length pathParts < length dirParts then False
         else if \<not> compare_segments 0 dirParts pathParts then False
         else int (length dirParts) = int (length pathParts) - 1 \<or>
              length dirParts = length pathParts)"

definition isPathIgnored :: "string list \<Rightarrow> string \<Rightarrow> bool" where
  "isPathIgnored ignoredDirectories filePath =
     list_ex (dir_matches filePath) ignoredDirectories"

section \<open>JavaScript values\<close>

text \<open>
  Front-matter comes from the metadata cache as an untyped plain object.  \<open>jsval\<close> are
  the values YAML front-matter can hold, and \<open>JBuiltin\<close> a member that a plain object
  inherits from \<open>Object.prototype\<close>.  An object is the association list of its own
  properties in insertion order.  A number is kept as an integer or NaN: the catalog
  only tests front-matter numbers for truthiness.
\<close>

datatype jsval =
    JUndefined
  | JNull
  | JBool bool
  | JNum int
  | JNaN
  | JStr string
  | JArr "jsval list"
  | JObj "(string \<times> jsval) list"
  | JBuiltin string

type_synonym obj = "(string \<times> jsval) list"

fun truthy :: "jsval \<Rightarrow> bool" where
  "truthy JUndefined = False"
| "truthy JNull = False"
| "truthy (JBool b) = b"
| "truthy (JNum n) = (n \<noteq> 0)"
| "truthy JNaN = False"
| "truthy (JStr s) = (s \<noteq> [])"
| "truthy (JArr items) = True"
| "truthy (JObj props) = True"
| "truthy (JBuiltin name) = True"

definition object_prototype_keys :: "string list" where
  \<comment> \<open>The property names of \<open>Object.prototype\<close>.\<close>
  "object_prototype_keys =
     [''constructor'', ''__defineGetter__'', ''__defineSetter__'', ''hasOwnProperty'',
      ''__lookupGetter__'', ''__lookupSetter__'', ''isPrototypeOf'', ''propertyIsEnumerable'',
      ''toString'', ''valueOf'', ''__proto__'', ''toLocaleString'']"

definition get_prop :: "obj \<Rightarrow> string \<Rightarrow> jsval" where
  \<comment> \<open>\<open>ob[k]\<close> on a plain object: an own property first, then the prototype chain;
      a name found in neither reads as \<open>undefined\<close>.\<close>
  "get_prop ob k =
     (case map_of ob k of
        Some v \<Rightarrow> v
      | None \<Rightarrow> (if k \<in> set object_prototype_keys then JBuiltin k else JUndefined))"

definition set_prop :: "obj \<Rightarrow> string \<Rightarrow> jsval \<Rightarrow> obj" where
  \<comment> \<open>\<open>ob[k] = v\<close> on a plain object.  An own property is overwritten in place and a
      new one is added last; \<open>__proto__\<close>, unless it is an own property, goes to the
      inherited setter, which adds no own property.\<close>
  "set_prop ob k v =
     (if k = ''__proto__'' \<and> map_of ob k = None then ob else AList.update k v ob)"

datatype error = TypeError | ReadError | WriteError

fun map_throw :: "('a \<Rightarrow> error + 'b) \<Rightarrow> 'a list \<Rightarrow> error + 'b list" where
  \<comment> \<open>\<open>xs.map(f)\<close> with a callback that may throw: the first exception ends the call.\<close>
  "map_throw f [] = Inr []"
| "map_throw f (x # xs) =
     (case f x of
        Inl e \<Rightarrow> Inl e
      | Inr y \<Rightarrow> (case map_throw f xs of Inl e \<Rightarrow> Inl e | Inr ys \<Rightarrow> Inr (y # ys)))"

definition set_add :: "'a \<Rightarrow> 'a list \<Rightarrow> 'a list" where
  \<comment> \<open>\<open>Set.prototype.add\<close> on a set kept in insertion order.\<close>
  "set_add x s = (if x \<in> set s then s else s @ [x])"

definition new_Set :: "'a list \<Rightarrow> 'a list" where
  \<comment> \<open>\<open>[...new Set(xs)]\<close>: the elements in the order of their first insertion.\<close>
  "new_Set xs = foldl (\<lambda>s x. set_add x s) [] xs"

section \<open>Settings and files\<close>

record settings =
  sourcePropertyName :: string
  includeFrontmatterTags :: bool
  readPropertyName :: string

record metadata =
  cache_frontmatter :: "obj option"
  cache_tags :: jsval

text \<open>
  A markdown file as the refresh pass sees it: the fields of \<open>TFile\<close> it reads, the
  answer of \<open>app.metadataCache.getFileCache(file)\<close> and the outcome of
  \<open>app.vault.read(file)\<close>.
\<close>

record tfile =
  file_path :: string
  file_basename :: string
  file_parent :: "string option"
  file_ctime :: int
  file_cache :: "metadata option"
  file_read :: "error + string"

section \<open>Tag normalization\<close>

definition strip_hash :: "string \<Rightarrow> string" where
  \<comment> \<open>\<open>tag.startsWith('#') ? tag.slice(1) : tag\<close>\<close>
  "strip_hash tag = (if startsWith tag ''#'' then drop 1 tag else tag)"

fun strip_hash_val :: "jsval \<Rightarrow> error + string" where
  \<comment> \<open>The same callback on an untyped entry: only a string has \<open>startsWith\<close>.\<close>
  "strip_hash_val (JStr tag) = Inr (strip_hash tag)"
| "strip_hash_val v = Inl TypeError"

definition processFrontmatterTags :: "obj \<Rightarrow> settings \<Rightarrow> error + string list" where
  "processFrontmatterTags frontmatter settings =
     (let t = get_prop frontmatter ''tags'' in
      if \<not> includeFrontmatterTags settings \<or> \<not> truthy t then Inr []
      else
        (case (case t of
                 JArr items \<Rightarrow> Inr items
               | JStr s \<Rightarrow> Inr (map (\<lambda>t. JStr (trim t)) (js_split CHR '','' s))
               | _ \<Rightarrow> Inl TypeError)
         of Inl e \<Rightarrow> Inl e
          | Inr entries \<Rightarrow>
              (case map_throw strip_hash_val entries of
                 Inl e \<Rightarrow> Inl e
               | Inr ts \<Rightarrow> Inr (filter (\<lambda>t. t \<noteq> []) ts))))"

fun tag_text :: "jsval \<Rightarrow> error + jsval" where
  \<comment> \<open>\<open>typeof tag === 'string' ? tag : tag.tag\<close>\<close>
  "tag_text (JStr s) = Inr (JStr s)"
| "tag_text JUndefined = Inl TypeError"
| "tag_text JNull = Inl TypeError"
| "tag_text (JObj props) = Inr (get_prop props ''tag'')"
| "tag_text v = Inr JUndefined"

definition processContentTags :: "jsval \<Rightarrow> error + string list" where
  "processContentTags tagCache =
     (if \<not> truthy tagCache then Inr []
      else
        (case tagCache of
           JArr items \<Rightarrow>
             (case map_throw tag_text items of
                Inl e \<Rightarrow> Inl e
              | Inr vs \<Rightarrow>
                  (case map_throw strip_hash_val vs of
                     Inl e \<Rightarrow> Inl e
                   | Inr ts \<Rightarrow> Inr (filter (\<lambda>t. t \<noteq> []) ts)))
         | _ \<Rightarrow> Inl TypeError))"

section \<open>The refresh pass\<close>

definition propertyNames :: "settings \<Rightarrow> string list" where
  "propertyNames settings =
     filter (\<lambda>name. name \<noteq> []) (map trim (js_split CHR '','' (sourcePropertyName settings)))"

definition nonblank_string :: "jsval \<Rightarrow> bool" where
  \<comment> \<open>\<open>typeof item === 'string' && item.trim() !== ''\<close>\<close>
  "nonblank_string item = (case item of JStr s \<Rightarrow> trim s \<noteq> [] | _ \<Rightarrow> False)"

definition add_url :: "obj \<Rightarrow> string \<Rightarrow> obj \<Rightarrow> obj" where
  \<comment> \<open>The body of the loop over \<open>propertyNames\<close>.\<close>
  "add_url frontmatter propName urls =
     (let v = get_prop frontmatter propName
      in if truthy v then
           (case v of
              JArr items \<Rightarrow>
                (let filteredValue = filter nonblank_string items
                 in if length filteredValue > 0
                    then set_prop urls propName (JArr filteredValue)
                    else urls)
            | _ \<Rightarrow> set_prop urls propName v)
         else urls)"

fun collect_urls :: "obj \<Rightarrow> string list \<Rightarrow> obj \<Rightarrow> obj" where
  "collect_urls frontmatter [] urls = urls"
| "collect_urls frontmatter (propName # rest) urls =
     collect_urls frontmatter rest (add_url frontmatter propName urls)"

text \<open>The catalog record, \<open>interface Article\<close>.\<close>

record article =
  title :: string
  urls :: obj
  path :: string
  date :: int
  tags :: "string list"
  frontmatterTags :: "string list"
  contentTags :: "string list"
  basename :: string
  content :: string
  read :: bool

text \<open>
  The body of the loop over the files.  \<open>Inr None\<close> is a \<open>continue\<close> or a file with no
  URL, \<open>Inl e\<close> an exception, which the \<open>catch\<close> of the loop logs before going on to the
  next file.
\<close>

definition process_file :: "settings \<Rightarrow> string list \<Rightarrow> tfile \<Rightarrow> error + article option" where
  "process_file settings ignoredDirectories file =
     (if isPathIgnored ignoredDirectories (case file_parent file of None \<Rightarrow> [] | Some p \<Rightarrow> p)
      then Inr None
      else
        (case file_cache file of
           None \<Rightarrow> Inr None
         | Some md \<Rightarrow>
             (case cache_frontmatter md of
                None \<Rightarrow> Inr None
              | Some fm \<Rightarrow>
                  (let found = collect_urls fm (propertyNames settings) [];
                       rd = (get_prop fm (readPropertyName settings) = JBool True)
                   in if length found > 0 then
                        (case file_read file of
                           Inl e \<Rightarrow> Inl e
                         | Inr text \<Rightarrow>
                             (case processFrontmatterTags fm settings of
                                Inl e \<Rightarrow> Inl e
                              | Inr ftags \<Rightarrow>
                                  (case processContentTags (cache_tags md) of
                                     Inl e \<Rightarrow> Inl e
                                   | Inr ctags \<Rightarrow>
                                       Inr (Some \<lparr>title = file_basename file,
                                                  urls = found,
                                                  path = file_path file,
                                                  date = file_ctime file,
                                                  tags = new_Set (ftags @ ctags),
                                                  frontmatterTags = ftags,
                                                  contentTags = ctags,
                                                  basename = file_basename file,
                                                  content = text,
                                                  read = rd\<rparr>))))
                      else Inr None))))"

fun load_loop :: "settings \<Rightarrow> string list \<Rightarrow> tfile list \<Rightarrow> article list \<Rightarrow> article list" where
  "load_loop settings ignoredDirectories [] articleFiles = articleFiles"
| "load_loop settings ignoredDirectories (file # files) articleFiles =
     load_loop settings ignoredDirectories files
       (case process_file settings ignoredDirectories file of
          Inr (Some a) \<Rightarrow> articleFiles @ [a]
        | Inr None \<Rightarrow> articleFiles
        | Inl e \<Rightarrow> articleFiles)"

definition loadArticles :: "settings \<Rightarrow> string list \<Rightarrow> tfile list \<Rightarrow> article list" where
  \<comment> \<open>The list handed to \<open>setArticles\<close>.\<close>
  "loadArticles settings ignoredDirectories files = load_loop settings ignoredDirectories files []"

section \<open>Sorting, filtering and search\<close>

text \<open>
  \<open>handleSort\<close> is called with the keys \<open>title\<close>, \<open>date\<close>, \<open>path\<close> and \<open>read\<close>.
  \<open>localeCompare\<close> is the collation of the host and stays a parameter \<open>lc\<close>.
\<close>

datatype sort_key = KTitle | KDate | KPath | KRead

datatype direction = Asc | Desc

record sortConfig =
  key :: sort_key
  direction :: direction

definition compare_read :: "direction \<Rightarrow> article \<Rightarrow> article \<Rightarrow> int" where
  "compare_read dir a b =
     (if dir = Asc
      then (if read a = read b then 0 else if read a then - 1 else 1)
      else (if read a = read b then 0 else if read a then 1 else - 1))"

definition compare_strings :: "(string \<Rightarrow> string \<Rightarrow> int) \<Rightarrow> direction \<Rightarrow> string \<Rightarrow> string \<Rightarrow> int" where
  "compare_strings lc dir x y =
     (let aValue = toLowerCase x; bValue = toLowerCase y
      in if dir = Asc then lc aValue bValue else lc bValue aValue)"

definition compareArticles ::
  "(string \<Rightarrow> string \<Rightarrow> int) \<Rightarrow> sortConfig \<Rightarrow> article \<Rightarrow> article \<Rightarrow> int" where
  \<comment> \<open>The comparator given to \<open>sort\<close>.\<close>
  "compareArticles lc cfg a b =
     (case key cfg of
        KDate \<Rightarrow> (if direction cfg = Asc then date a - date b else date b - date a)
      | KRead \<Rightarrow> compare_read (direction cfg) a b
      | KTitle \<Rightarrow> compare_strings lc (direction cfg) (title a) (title b)
      | KPath \<Rightarrow> compare_strings lc (direction cfg) (path a) (path b))"

text \<open>
  \<open>Array.prototype.sort\<close> is stable (ECMAScript 2019): elements that compare equal keep
  their order.  It is modelled by insertion from the right, where an element goes in
  front of the first element it does not compare greater than.
\<close>

fun insert_sorted :: "('a \<Rightarrow> 'a \<Rightarrow> int) \<Rightarrow> 'a \<Rightarrow> 'a list \<Rightarrow> 'a list" where
  "insert_sorted cmp x [] = [x]"
| "insert_sorted cmp x (y # ys) =
     (if cmp x y \<le> 0 then x # y # ys else y # insert_sorted cmp x ys)"

definition js_sort :: "('a \<Rightarrow> 'a \<Rightarrow> int) \<Rightarrow> 'a list \<Rightarrow> 'a list" where
  "js_sort cmp xs = foldr (insert_sorted cmp) xs []"

definition sortedArticles ::
  "(string \<Rightarrow> string \<Rightarrow> int) \<Rightarrow> sortConfig \<Rightarrow> article list \<Rightarrow> article list" where
  "sortedArticles lc cfg articles = js_sort (compareArticles lc cfg) articles"

record filterState =
  hideCompleted :: bool
  showOnlyCompleted :: bool

definition search_matches :: "string \<Rightarrow> article \<Rightarrow> bool" where
  \<comment> \<open>The search part of the filter callback; \<open>&&\<close> binds tighter than \<open>||\<close>.\<close>
  "search_matches searchTerm a =
     (js_includes (toLowerCase (title a)) (toLowerCase searchTerm) \<or>
      list_ex (\<lambda>tag. js_includes (toLowerCase tag) (toLowerCase searchTerm)) (tags a) \<or>
      (startsWith searchTerm ''#'' \<and>
       list_ex (\<lambda>tag. toLowerCase tag = toLowerCase (drop 1 searchTerm)) (tags a)))"

definition keep_article :: "filterState \<Rightarrow> string \<Rightarrow> article \<Rightarrow> bool" where
  "keep_article st searchTerm a =
     (if hideCompleted st \<and> read a then False
      else if showOnlyCompleted st \<and> \<not> read a then False
      else search_matches searchTerm a)"

definition filteredArticles :: "filterState \<Rightarrow> string \<Rightarrow> article list \<Rightarrow> article list" where
  "filteredArticles st searchTerm sortedList = filter (keep_article st searchTerm) sortedList"

text \<open>
  The two links of \<open>renderAdvancedSettingsHeader\<close>.  Each handler reads both flags as
  they were at the last render and sets its own flag to the negation.
\<close>

datatype click = ClickHideCompleted | ClickShowOnlyCompleted

fun on_click :: "filterState \<Rightarrow> click \<Rightarrow> filterState" where
  "on_click st ClickHideCompleted =
     (let st1 = st\<lparr>hideCompleted := \<not> hideCompleted st\<rparr>
      in if showOnlyCompleted st then st1\<lparr>showOnlyCompleted := False\<rparr> else st1)"
| "on_click st ClickShowOnlyCompleted =
     (let st1 = st\<lparr>showOnlyCompleted := \<not> showOnlyCompleted st\<rparr>
      in if hideCompleted st then st1\<lparr>hideCompleted := False\<rparr> else st1)"

definition initial_filterState :: filterState where
  "initial_filterState = \<lparr>hideCompleted = False, showOnlyCompleted = False\<rparr>"

definition run_clicks :: "click list \<Rightarrow> filterState" where
  "run_clicks clicks = foldl on_click initial_filterState clicks"

section \<open>Toggling the read state\<close>

text \<open>
  The \<open>onChange\<close> handler of a row's checkbox.  \<open>host\<close> holds what the application
  answers while the handler runs: whether the path is a file, the metadata cache entry,
  the outcome of \<open>app.vault.read\<close>, and whether the write (\<open>app.vault.modify\<close> or
  \<open>app.fileManager.processFrontMatter\<close>) throws.  The handler's result is the new
  \<open>articles\<close> state and the writes that went through.
\<close>

datatype write_op =
    Modify string string
  | ProcessFrontMatter string "obj \<Rightarrow> obj"

record host =
  host_is_file :: bool
  host_cache :: "metadata option"
  host_read :: "error + string"
  host_write :: "error option"

definition set_read :: "string \<Rightarrow> bool \<Rightarrow> article list \<Rightarrow> article list" where
  \<comment> \<open>\<open>prev.map(a => a.path === article.path ? {...a, read: v} : a)\<close>\<close>
  "set_read p v prev = map (\<lambda>a. if path a = p then a\<lparr>read := v\<rparr> else a) prev"

definition bool_string :: "bool \<Rightarrow> string" where
  "bool_string b = (if b then ''true'' else ''false'')"

definition new_block :: "string \<Rightarrow> bool \<Rightarrow> string" where
  \<comment> \<open>The front-matter block of the template literal, up to the old content.\<close>
  "new_block name isChecked =
     ''---'' @ [CHR 0x0A] @ name @ '': '' @ bool_string isChecked @ [CHR 0x0A] @ ''---'' @ [CHR 0x0A]"

definition assign_read :: "string \<Rightarrow> bool \<Rightarrow> obj \<Rightarrow> obj" where
  \<comment> \<open>The callback given to \<open>processFrontMatter\<close>.\<close>
  "assign_read name isChecked frontmatter = set_prop frontmatter name (JBool isChecked)"

definition has_frontmatter :: "host \<Rightarrow> bool" where
  \<comment> \<open>The negation of \<open>!metadata?.frontmatter\<close>.\<close>
  "has_frontmatter h =
     (case host_cache h of None \<Rightarrow> False
      | Some md \<Rightarrow> (case cache_frontmatter md of None \<Rightarrow> False | Some fm \<Rightarrow> True))"

definition write_through :: "settings \<Rightarrow> host \<Rightarrow> string \<Rightarrow> bool \<Rightarrow> error + write_op" where
  \<comment> \<open>The body of the \<open>try\<close> after the optimistic update.\<close>
  "write_through settings h p isChecked =
     (case host_read h of
        Inl e \<Rightarrow> Inl e
      | Inr text \<Rightarrow>
          (let w = (if \<not> has_frontmatter h
                    then Modify p (new_block (readPropertyName settings) isChecked @ text)
                    else ProcessFrontMatter p (assign_read (readPropertyName settings) isChecked))
           in case host_write h of Some e \<Rightarrow> Inl e | None \<Rightarrow> Inr w))"

definition onChange ::
  "settings \<Rightarrow> host \<Rightarrow> article \<Rightarrow> bool \<Rightarrow> article list \<Rightarrow> article list \<times> write_op list" where
  "onChange settings h row isChecked articles =
     (if \<not> host_is_file h then (articles, [])
      else
        (let optimistic = set_read (path row) isChecked articles
         in case write_through settings h (path row) isChecked of
              Inr w \<Rightarrow> (optimistic, [w])
            | Inl e \<Rightarrow> (set_read (path row) (\<not> isChecked) optimistic, [])))"

section \<open>Predicates of the specification\<close>

text \<open>
  The segments the exclusion claim compares.  They are written out here on their own,
  not through the helpers of \<open>dir_matches\<close>: every backslash becomes a slash, a rule
  loses one trailing slash, and the result is cut at the slashes.
\<close>

definition slashes :: "string \<Rightarrow> string" where
  "slashes s = map (\<lambda>c. if c = CHR 0x5C then CHR ''/'' else c) s"

definition rule_segments :: "string \<Rightarrow> string list" where
  "rule_segments rule =
     js_split CHR ''/''
       (case rev (slashes rule) of
          [] \<Rightarrow> []
        | c # rest \<Rightarrow> (if c = CHR ''/'' then rev rest else slashes rule))"

definition path_segments :: "string \<Rightarrow> string list" where
  "path_segments filePath = js_split CHR ''/'' (slashes filePath)"

definition normalized_tags :: "string list \<Rightarrow> bool" where
  \<comment> \<open>A tag list in normalized form: no leading \<open>#\<close>, trimmed, no empty string, no
      duplicate.\<close>
  "normalized_tags ts =
     (list_all (\<lambda>t. \<not> startsWith t ''#'' \<and> trim t = t \<and> t \<noteq> []) ts \<and> distinct ts)"

definition source_value_kept :: "jsval \<Rightarrow> bool" where
  \<comment> \<open>A front-matter value that gives a record a URL: truthy, and either not an array
      or an array with an entry that is a string and not blank after \<open>trim\<close>.\<close>
  "source_value_kept v =
     (truthy v \<and>
      (case v of
         JArr items \<Rightarrow>
           list_ex (\<lambda>item. case item of JStr s \<Rightarrow> trim s \<noteq> [] | _ \<Rightarrow> False) items
       | _ \<Rightarrow> True))"

definition qualifies :: "settings \<Rightarrow> string list \<Rightarrow> tfile \<Rightarrow> bool" where
  \<comment> \<open>The documents of a refresh pass that get a record: not path-excluded, with a
      front-matter block, with a configured source property other than \<open>__proto__\<close>
      whose value is kept, and whose content read and tag normalization do not throw.\<close>
  "qualifies settings ignoredDirectories file =
     (\<not> isPathIgnored ignoredDirectories (case file_parent file of None \<Rightarrow> [] | Some p \<Rightarrow> p) \<and>
      (case file_cache file of
         None \<Rightarrow> False
       | Some md \<Rightarrow>
           (case cache_frontmatter md of
              None \<Rightarrow> False
            | Some fm \<Rightarrow>
                list_ex (\<lambda>p. p \<noteq> ''__proto__'' \<and> source_value_kept (get_prop fm p))
                  (propertyNames settings) \<and>
                isl (file_read file) = False \<and>
                isl (processFrontmatterTags fm settings) = False \<and>
                isl (processContentTags (cache_tags md)) = False)))"

definition written_frontmatter :: "write_op \<Rightarrow> obj \<Rightarrow> obj option" where
  \<comment> \<open>What a write leaves as the front-matter of a file whose front-matter was \<open>fm\<close>,
      when the write is \<open>processFrontMatter\<close>: the object after the callback.\<close>
  "written_frontmatter w fm =
     (case w of Modify p t \<Rightarrow> None | ProcessFrontMatter p f \<Rightarrow> Some (f fm))"

section \<open>Example data\<close>

definition example_rule :: string where
  \<comment> \<open>A rule written with a backslash and a trailing slash.\<close>
  "example_rule = ''Work'' @ [CHR 0x5C] @ ''Expenses/''"

definition example_path :: string where
  \<comment> \<open>A directory one level below the rule, written with backslashes.\<close>
  "example_path = ''work'' @ [CHR 0x5C] @ ''expenses'' @ [CHR 0x5C] @ ''2024''"

definition example_deep_path :: string where
  \<comment> \<open>A directory two levels below the rule.\<close>
  "example_deep_path = example_path @ [CHR 0x5C] @ ''q1''"

definition example_host :: "obj option \<Rightarrow> error option \<Rightarrow> host" where
  "example_host fm failure =
     \<lparr>host_is_file = True,
      host_cache = Some \<lparr>cache_frontmatter = fm, cache_tags = JUndefined\<rparr>,
      host_read = Inr ''body'', host_write = failure\<rparr>"

definition example_settings :: settings where
  "example_settings =
     \<lparr>sourcePropertyName = ''url, link'', includeFrontmatterTags = True,
      readPropertyName = ''read''\<rparr>"

definition example_article :: "string \<Rightarrow> string list \<Rightarrow> bool \<Rightarrow> article" where
  "example_article name ts rd =
     \<lparr>title = name, urls = [(''url'', JStr ''https://a.com/x'')], path = name @ ''.md'',
      date = 0, tags = ts, frontmatterTags = ts, contentTags = [], basename = name,
      content = [], read = rd\<rparr>"

definition example_file :: "string \<Rightarrow> obj \<Rightarrow> tfile" where
  "example_file name fm =
     \<lparr>file_path = name @ ''.md'', file_basename = name, file_parent = Some ''clips'',
      file_ctime = 0,
      file_cache = Some \<lparr>cache_frontmatter = Some fm, cache_tags = JUndefined\<rparr>,
      file_read = Inr ''body''\<rparr>"

section \<open>Properties of path exclusion\<close>

lemma js_split_not_Nil: "js_split sep s \<noteq> []"
  by (induction s) (auto split: list.splits)

lemma compare_segments_iff:
  "compare_segments i d p \<longleftrightarrow>
     (\<forall>k. i \<le> k \<and> k < length d \<longrightarrow> toLowerCase (d ! k) = toLowerCase (p ! k))"
proof (induction i d p rule: compare_segments.induct)
  case (1 i d p)
  show ?case
  proof (cases "i < length d")
    case False
    then show ?thesis
      by (subst compare_segments.simps) auto
  next
    case True
    show ?thesis
    proof (cases "toLowerCase (d ! i) = toLowerCase (p ! i)")
      case False
      with True show ?thesis
        by (subst compare_segments.simps) auto
    next
      case same: True
      have "compare_segments i d p = compare_segments (i + 1) d p"
        by (subst compare_segments.simps) (simp add: True same)
      also have "\<dots> \<longleftrightarrow>
          (\<forall>k. i + 1 \<le> k \<and> k < length d \<longrightarrow> toLowerCase (d ! k) = toLowerCase (p ! k))"
        using "1.IH" True same by simp
      also have "\<dots> \<longleftrightarrow>
          (\<forall>k. i \<le> k \<and> k < length d \<longrightarrow> toLowerCase (d ! k) = toLowerCase (p ! k))"
      proof (intro iffI allI impI)
        fix k
        assume h: "\<forall>k. i + 1 \<le> k \<and> k < length d \<longrightarrow> toLowerCase (d ! k) = toLowerCase (p ! k)"
          and k: "i \<le> k \<and> k < length d"
        show "toLowerCase (d ! k) = toLowerCase (p ! k)"
        proof (cases "k = i")
          case True
          with same show ?thesis by simp
        next
          case False
          with k have "i + 1 \<le> k \<and> k < length d" by simp
          with h show ?thesis by blast
        qed
      next
        fix k
        assume h: "\<forall>k. i \<le> k \<and> k < length d \<longrightarrow> toLowerCase (d ! k) = toLowerCase (p ! k)"
          and k: "i + 1 \<le> k \<and> k < length d"
        then have "i \<le> k \<and> k < length d" by simp
        with h show "toLowerCase (d ! k) = toLowerCase (p ! k)" by blast
      qed
      finally show ?thesis .
    qed
  qed
qed

lemma slashes_code: "slashes s = replace_backslashes s"
  by (simp add: slashes_def replace_backslashes_def)

lemma rule_segments_code:
  "rule_segments rule = js_split CHR ''/'' (strip_trailing_slash (replace_backslashes rule))"
proof -
  have e: "(case rev r of [] \<Rightarrow> [] | c # rest \<Rightarrow> (if c = CHR ''/'' then rev rest else r)) =
      (if r \<noteq> [] \<and> last r = CHR ''/'' then butlast r else r)" for r :: string
    by (cases r rule: rev_cases) simp_all
  show ?thesis
    unfolding rule_segments_def strip_trailing_slash_def slashes_code
    by (simp only: e)
qed

lemma path_segments_code: "path_segments filePath = js_split CHR ''/'' (replace_backslashes filePath)"
  by (simp add: path_segments_def slashes_code)

lemma dir_matches_iff:
  "dir_matches filePath rule \<longleftrightarrow>
     (length (path_segments filePath) = length (rule_segments rule) \<or>
      length (path_segments filePath) = length (rule_segments rule) + 1) \<and>
     (\<forall>i < length (rule_segments rule).
        toLowerCase (rule_segments rule ! i) = toLowerCase (path_segments filePath ! i))"
proof -
  have "length (js_split CHR ''/'' (replace_backslashes filePath)) \<noteq> 0"
    by (simp add: js_split_not_Nil)
  then show ?thesis
    unfolding rule_segments_code path_segments_code dir_matches_def Let_def
    by (auto simp: compare_segments_iff)
qed

text \<open>
  C2.  \<open>isPathIgnored\<close> answers true exactly when some rule, with backslashes turned
  into slashes and one trailing slash removed, agrees segment by segment, ignoring case,
  with the leading segments of the path (backslashes turned into slashes), and the path
  has as many segments as the rule or exactly one more.  So a rule never matches a path
  that is two or more segments longer than it.  \<open>rule_segments\<close> and \<open>path_segments\<close>
  spell the normalization out apart from the code.
\<close>

theorem isPathIgnored_iff:
  "(isPathIgnored rules filePath \<longleftrightarrow>
      (\<exists>rule \<in> set rules.
         (length (path_segments filePath) = length (rule_segments rule) \<or>
          length (path_segments filePath) = length (rule_segments rule) + 1) \<and>
         (\<forall>i < length (rule_segments rule).
            toLowerCase (rule_segments rule ! i) = toLowerCase (path_segments filePath ! i)))) \<and>
   (\<forall>rule. length (rule_segments rule) + 2 \<le> length (path_segments filePath) \<longrightarrow>
      \<not> dir_matches filePath rule)"
proof (intro conjI allI impI)
  show "isPathIgnored rules filePath \<longleftrightarrow>
      (\<exists>rule \<in> set rules.
         (length (path_segments filePath) = length (rule_segments rule) \<or>
          length (path_segments filePath) = length (rule_segments rule) + 1) \<and>
         (\<forall>i < length (rule_segments rule).
            toLowerCase (rule_segments rule ! i) = toLowerCase (path_segments filePath ! i)))"
    unfolding isPathIgnored_def list_ex_iff dir_matches_iff ..
next
  fix rule
  assume "length (rule_segments rule) + 2 \<le> length (path_segments filePath)"
  then show "\<not> dir_matches filePath rule"
    unfolding dir_matches_iff by simp
qed

theorem isPathIgnored_iff_witness:
  "isPathIgnored [example_rule] example_path \<and>
   length (rule_segments example_rule) + 2 \<le> length (path_segments example_deep_path) \<and>
   \<not> dir_matches example_deep_path example_rule \<and>
   \<not> isPathIgnored [example_rule] example_deep_path \<and>
   \<not> isPathIgnored [''work/expenses/2024/''] ''work/expenses''"
proof -
  have r: "rule_segments example_rule = [''Work'', ''Expenses'']"
    by (simp add: rule_segments_def slashes_def example_rule_def)
  have r2: "rule_segments ''work/expenses/2024/'' = [''work'', ''expenses'', ''2024'']"
    by (simp add: rule_segments_def slashes_def)
  have p1: "path_segments example_path = [''work'', ''expenses'', ''2024'']"
    by (simp add: path_segments_def slashes_def example_path_def)
  have p2: "path_segments example_deep_path = [''work'', ''expenses'', ''2024'', ''q1'']"
    by (simp add: path_segments_def slashes_def example_path_def example_deep_path_def)
  have p3: "path_segments ''work/expenses'' = [''work'', ''expenses'']"
    by (simp add: path_segments_def slashes_def)
  have l: "toLowerCase ''Work'' = ''work''" "toLowerCase ''Expenses'' = ''expenses''"
    "toLowerCase ''work'' = ''work''" "toLowerCase ''expenses'' = ''expenses''"
    by code_simp+
  show ?thesis
    using isPathIgnored_iff [of "[example_rule]" example_path]
      isPathIgnored_iff [of "[example_rule]" example_deep_path]
      isPathIgnored_iff [of "[''work/expenses/2024/'']" "''work/expenses''"]
    by (simp add: r r2 p1 p2 p3 l less_Suc_eq numeral_2_eq_2 all_conj_distrib)
qed

section \<open>Properties of sorting and filtering\<close>

lemma insert_sorted_skip:
  "\<forall>y \<in> set ys. 0 < cmp x y \<Longrightarrow> insert_sorted cmp x (ys @ zs) = ys @ insert_sorted cmp x zs"
  by (induction ys) auto

lemma insert_sorted_front:
  "\<forall>y \<in> set ys. cmp x y \<le> 0 \<Longrightarrow> insert_sorted cmp x ys = x # ys"
  by (cases ys) auto

lemma js_sort_read_asc:
  "js_sort (compare_read Asc) xs = filter read xs @ filter (\<lambda>a. \<not> read a) xs"
proof (induction xs)
  case Nil
  show ?case by (simp add: js_sort_def)
next
  case (Cons x xs)
  have step: "js_sort (compare_read Asc) (x # xs) =
      insert_sorted (compare_read Asc) x (filter read xs @ filter (\<lambda>a. \<not> read a) xs)"
    using Cons.IH by (simp add: js_sort_def)
  show ?case
  proof (cases "read x")
    case True
    then have "\<forall>y \<in> set (filter read xs @ filter (\<lambda>a. \<not> read a) xs). compare_read Asc x y \<le> 0"
      by (auto simp: compare_read_def)
    then show ?thesis
      using True step by (simp add: insert_sorted_front)
  next
    case False
    then have skip: "\<forall>y \<in> set (filter read xs). 0 < compare_read Asc x y"
      and front: "\<forall>y \<in> set (filter (\<lambda>a. \<not> read a) xs). compare_read Asc x y \<le> 0"
      by (auto simp: compare_read_def)
    show ?thesis
      using False step skip front
        insert_sorted_skip [where cmp = "compare_read Asc" and x = x and ys = "filter read xs"
          and zs = "filter (\<lambda>a. \<not> read a) xs"]
        insert_sorted_front [where cmp = "compare_read Asc" and x = x
          and ys = "filter (\<lambda>a. \<not> read a) xs"]
      by simp
  qed
qed

lemma js_sort_read_desc:
  "js_sort (compare_read Desc) xs = filter (\<lambda>a. \<not> read a) xs @ filter read xs"
proof (induction xs)
  case Nil
  show ?case by (simp add: js_sort_def)
next
  case (Cons x xs)
  have step: "js_sort (compare_read Desc) (x # xs) =
      insert_sorted (compare_read Desc) x (filter (\<lambda>a. \<not> read a) xs @ filter read xs)"
    using Cons.IH by (simp add: js_sort_def)
  show ?case
  proof (cases "read x")
    case False
    then have "\<forall>y \<in> set (filter (\<lambda>a. \<not> read a) xs @ filter read xs). compare_read Desc x y \<le> 0"
      by (auto simp: compare_read_def)
    then show ?thesis
      using False step by (simp add: insert_sorted_front)
  next
    case True
    then have skip: "\<forall>y \<in> set (filter (\<lambda>a. \<not> read a) xs). 0 < compare_read Desc x y"
      and front: "\<forall>y \<in> set (filter read xs). compare_read Desc x y \<le> 0"
      by (auto simp: compare_read_def)
    show ?thesis
      using True step skip front
        insert_sorted_skip [where cmp = "compare_read Desc" and x = x
          and ys = "filter (\<lambda>a. \<not> read a) xs" and zs = "filter read xs"]
        insert_sorted_front [where cmp = "compare_read Desc" and x = x and ys = "filter read xs"]
      by simp
  qed
qed

lemma compareArticles_read: "compareArticles lc \<lparr>key = KRead, direction = d\<rparr> = compare_read d"
  by (rule ext, rule ext) (simp add: compareArticles_def)

text \<open>
  C7.  Sorting by the \<open>read\<close> key, ascending, gives the read records followed by the
  unread ones; descending gives the unread records followed by the read ones.  In both,
  each group is the input list filtered, so records with equal \<open>read\<close> values keep the
  order they had in the input.
\<close>

theorem sortedArticles_read:
  "sortedArticles lc \<lparr>key = KRead, direction = Asc\<rparr> articles =
     filter read articles @ filter (\<lambda>a. \<not> read a) articles \<and>
   sortedArticles lc \<lparr>key = KRead, direction = Desc\<rparr> articles =
     filter (\<lambda>a. \<not> read a) articles @ filter read articles"
  by (simp add: sortedArticles_def compareArticles_read js_sort_read_asc js_sort_read_desc)

theorem sortedArticles_read_witness:
  "sortedArticles (\<lambda>x y. 0) \<lparr>key = KRead, direction = Asc\<rparr>
     [example_article ''a'' [] False, example_article ''b'' [] True,
      example_article ''c'' [] False, example_article ''d'' [] True] =
     [example_article ''b'' [] True, example_article ''d'' [] True,
      example_article ''a'' [] False, example_article ''c'' [] False] \<and>
   sortedArticles (\<lambda>x y. 0) \<lparr>key = KRead, direction = Desc\<rparr>
     [example_article ''a'' [] False, example_article ''b'' [] True,
      example_article ''c'' [] False, example_article ''d'' [] True] =
     [example_article ''a'' [] False, example_article ''c'' [] False,
      example_article ''b'' [] True, example_article ''d'' [] True]"
  using sortedArticles_read [of "\<lambda>x y. 0"
      "[example_article ''a'' [] False, example_article ''b'' [] True,
        example_article ''c'' [] False, example_article ''d'' [] True]"]
  by (simp add: example_article_def)

lemma js_includes_empty: "js_includes s []"
  by (cases s) (simp_all add: startsWith_def)

lemma search_matches_empty: "search_matches [] a"
  by (simp add: search_matches_def toLowerCase_def js_includes_empty)

text \<open>
  C10.  With the empty search term the search predicate accepts every record, and the
  displayed list is the sorted catalog restricted by the two read-state filters only.
\<close>

theorem filteredArticles_empty_search:
  "search_matches [] a \<and>
   filteredArticles st [] (sortedArticles lc cfg articles) =
     filter (\<lambda>a. \<not> (hideCompleted st \<and> read a) \<and> \<not> (showOnlyCompleted st \<and> \<not> read a))
       (sortedArticles lc cfg articles)"
proof
  show "search_matches [] a" by (rule search_matches_empty)
  have "keep_article st [] = (\<lambda>a. \<not> (hideCompleted st \<and> read a) \<and> \<not> (showOnlyCompleted st \<and> \<not> read a))"
    by (rule ext) (simp add: keep_article_def search_matches_empty)
  then show "filteredArticles st [] (sortedArticles lc cfg articles) =
     filter (\<lambda>a. \<not> (hideCompleted st \<and> read a) \<and> \<not> (showOnlyCompleted st \<and> \<not> read a))
       (sortedArticles lc cfg articles)"
    by (simp add: filteredArticles_def)
qed

theorem filteredArticles_empty_search_witness:
  "search_matches [] (example_article ''a'' [''x''] True) \<and>
   filteredArticles \<lparr>hideCompleted = True, showOnlyCompleted = False\<rparr> []
     (sortedArticles (\<lambda>x y. 0) \<lparr>key = KRead, direction = Asc\<rparr>
        [example_article ''a'' [] False, example_article ''b'' [] True]) =
     [example_article ''a'' [] False]"
  using filteredArticles_empty_search [of "example_article ''a'' [''x''] True"
      "\<lparr>hideCompleted = True, showOnlyCompleted = False\<rparr>" "\<lambda>x y. 0"
      "\<lparr>key = KRead, direction = Asc\<rparr>"
      "[example_article ''a'' [] False, example_article ''b'' [] True]"]
  by (simp add: example_article_def sortedArticles_def js_sort_def compareArticles_def
      compare_read_def)

lemma on_click_exclusive:
  "\<not> (hideCompleted st \<and> showOnlyCompleted st) \<Longrightarrow>
   \<not> (hideCompleted (on_click st c) \<and> showOnlyCompleted (on_click st c))"
  by (cases c) (auto simp: Let_def)

lemma foldl_on_click_exclusive:
  "\<not> (hideCompleted st \<and> showOnlyCompleted st) \<Longrightarrow>
   \<not> (hideCompleted (foldl on_click st cs) \<and> showOnlyCompleted (foldl on_click st cs))"
proof (induction cs arbitrary: st)
  case Nil
  then show ?case by simp
next
  case (Cons c cs)
  from Cons.prems have "\<not> (hideCompleted (on_click st c) \<and> showOnlyCompleted (on_click st c))"
    by (rule on_click_exclusive)
  then show ?case using Cons.IH by simp
qed

text \<open>
  C6.  After any sequence of clicks on the two links, starting with both flags off,
  \<open>hideCompleted\<close> and \<open>showOnlyCompleted\<close> are not both on.  While \<open>hideCompleted\<close>
  is on no displayed record is read, while \<open>showOnlyCompleted\<close> is on every displayed
  record is read, and the displayed list is the read-state filter followed by the
  search predicate.
\<close>

theorem toggles_exclusive:
  "\<not> (hideCompleted (run_clicks clicks) \<and> showOnlyCompleted (run_clicks clicks)) \<and>
   (hideCompleted st \<longrightarrow> (\<forall>a \<in> set (filteredArticles st searchTerm sortedList). \<not> read a)) \<and>
   (showOnlyCompleted st \<longrightarrow> (\<forall>a \<in> set (filteredArticles st searchTerm sortedList). read a)) \<and>
   filteredArticles st searchTerm sortedList =
     filter (search_matches searchTerm)
       (filter (\<lambda>a. \<not> (hideCompleted st \<and> read a) \<and> \<not> (showOnlyCompleted st \<and> \<not> read a))
          sortedList)"
proof (intro conjI)
  show "\<not> (hideCompleted (run_clicks clicks) \<and> showOnlyCompleted (run_clicks clicks))"
    unfolding run_clicks_def
    by (rule foldl_on_click_exclusive) (simp add: initial_filterState_def)
  show "hideCompleted st \<longrightarrow> (\<forall>a \<in> set (filteredArticles st searchTerm sortedList). \<not> read a)"
    by (auto simp: filteredArticles_def keep_article_def split: if_splits)
  show "showOnlyCompleted st \<longrightarrow> (\<forall>a \<in> set (filteredArticles st searchTerm sortedList). read a)"
    by (auto simp: filteredArticles_def keep_article_def split: if_splits)
  show "filteredArticles st searchTerm sortedList =
     filter (search_matches searchTerm)
       (filter (\<lambda>a. \<not> (hideCompleted st \<and> read a) \<and> \<not> (showOnlyCompleted st \<and> \<not> read a))
          sortedList)"
    unfolding filteredArticles_def filter_filter
    by (rule filter_cong) (auto simp: keep_article_def)
qed

theorem toggles_exclusive_witness:
  "hideCompleted (run_clicks [ClickShowOnlyCompleted, ClickHideCompleted]) \<and>
   \<not> showOnlyCompleted (run_clicks [ClickShowOnlyCompleted, ClickHideCompleted]) \<and>
   list_all (\<lambda>a. \<not> read a)
     (filteredArticles (run_clicks [ClickShowOnlyCompleted, ClickHideCompleted]) ''b''
        [example_article ''a'' [] False, example_article ''b'' [] True])"
proof -
  have h: "hideCompleted (run_clicks [ClickShowOnlyCompleted, ClickHideCompleted])"
    by (simp add: run_clicks_def initial_filterState_def)
  show ?thesis
    unfolding list_all_iff
    using h toggles_exclusive [of "[ClickShowOnlyCompleted, ClickHideCompleted]"
      "run_clicks [ClickShowOnlyCompleted, ClickHideCompleted]" "''b''"
      "[example_article ''a'' [] False, example_article ''b'' [] True]"]
    by blast
qed

section \<open>Properties of URL extraction\<close>











section \<open>Properties of tag normalization\<close>

lemma map_throw_strip_hash: "map_throw strip_hash_val (map JStr xs) = Inr (map strip_hash xs)"
  by (induction xs) simp_all

lemma map_throw_tag_text_strings: "map_throw tag_text (map JStr xs) = Inr (map JStr xs)"
  by (induction xs) simp_all

lemma map_throw_tag_text_objects:
  "map_throw tag_text (map (\<lambda>t. JObj [(''tag'', JStr t)]) xs) = Inr (map JStr xs)"
  by (induction xs) (simp_all add: get_prop_def)

lemma processFrontmatterTags_array:
  "includeFrontmatterTags s \<Longrightarrow> get_prop fm ''tags'' = JArr (map JStr xs) \<Longrightarrow>
   processFrontmatterTags fm s = Inr (filter (\<lambda>t. t \<noteq> []) (map strip_hash xs))"
  by (simp add: processFrontmatterTags_def map_throw_strip_hash)


lemma processContentTags_strings:
  "processContentTags (JArr (map JStr xs)) = Inr (filter (\<lambda>t. t \<noteq> []) (map strip_hash xs))"
  by (simp add: processContentTags_def map_throw_tag_text_strings map_throw_strip_hash)

lemma processContentTags_objects:
  "processContentTags (JArr (map (\<lambda>t. JObj [(''tag'', JStr t)]) xs)) =
     Inr (filter (\<lambda>t. t \<noteq> []) (map strip_hash xs))"
  by (simp add: processContentTags_def map_throw_tag_text_objects map_throw_strip_hash)

lemma normalized_fixed:
  "list_all (\<lambda>t. \<not> startsWith t ''#'' \<and> t \<noteq> []) xs \<Longrightarrow>
   filter (\<lambda>t. t \<noteq> []) (map strip_hash xs) = xs"
  by (induction xs) (simp_all add: strip_hash_def)

lemma get_prop_update: "get_prop (AList.update k v fm) k = v"
  by (simp add: get_prop_def update_conv')

lemma processFrontmatterTags_off:
  "\<not> includeFrontmatterTags s \<or> \<not> truthy (get_prop fm ''tags'') \<Longrightarrow>
   processFrontmatterTags fm s = Inr []"
  by (auto simp: processFrontmatterTags_def Let_def)

text \<open>
  C9, as amended.  A tag list in normalized form (no leading \<open>#\<close>, trimmed, no empty
  string, no duplicate) is returned as it is by the content tag normalization, whether
  it is given as bare strings or as objects with a \<open>tag\<close> field, and by the front-matter
  tag normalization when \<open>includeFrontmatterTags\<close> is on; with the flag off the
  front-matter normalization returns the empty list.  On other input the normalizations
  are not idempotent, since one pass strips one \<open>#\<close>.  The counterexample is the
  normalized list of the one tag \<open>a\<close> with the flag off, and the tag \<open>##a\<close>, which
  two passes take to \<open>#a\<close> and then to \<open>a\<close>.
\<close>

theorem normalization_fixes_normalized:
  "normalized_tags xs \<Longrightarrow>
   processFrontmatterTags (AList.update ''tags'' (JArr (map JStr xs)) fm) s =
     Inr (if includeFrontmatterTags s then xs else []) \<and>
   processContentTags (JArr (map JStr xs)) = Inr xs \<and>
   processContentTags (JArr (map (\<lambda>t. JObj [(''tag'', JStr t)]) xs)) = Inr xs"
proof -
  assume n: "normalized_tags xs"
  then have "list_all (\<lambda>t. \<not> startsWith t ''#'' \<and> t \<noteq> []) xs"
    by (simp add: normalized_tags_def list_all_iff)
  then have fx: "filter (\<lambda>t. t \<noteq> []) (map strip_hash xs) = xs"
    by (rule normalized_fixed)
  have fm: "processFrontmatterTags (AList.update ''tags'' (JArr (map JStr xs)) fm) s =
      Inr (if includeFrontmatterTags s then xs else [])"
  proof (cases "includeFrontmatterTags s")
    case True
    then show ?thesis
      using fx processFrontmatterTags_array [OF True get_prop_update] by simp
  next
    case False
    then show ?thesis by (simp add: processFrontmatterTags_off)
  qed
  show ?thesis
    using fx fm by (simp add: processContentTags_strings processContentTags_objects)
qed

theorem normalization_fixes_normalized_witness:
  "normalized_tags [''news'', ''ai''] \<and>
   processFrontmatterTags
     (AList.update ''tags'' (JArr (map JStr [''news'', ''ai''])) [(''tags'', JStr ''#news, #ai'')])
     example_settings = Inr [''news'', ''ai''] \<and>
   processFrontmatterTags
     (AList.update ''tags'' (JArr (map JStr [''news'', ''ai''])) [(''tags'', JStr ''#news, #ai'')])
     (example_settings\<lparr>includeFrontmatterTags := False\<rparr>) = Inr [] \<and>
   processContentTags (JArr (map JStr [''news'', ''ai''])) = Inr [''news'', ''ai''] \<and>
   processContentTags (JArr (map (\<lambda>t. JObj [(''tag'', JStr t)]) [''news'', ''ai''])) =
     Inr [''news'', ''ai'']"
proof -
  have n: "normalized_tags [''news'', ''ai'']"
    by (simp add: normalized_tags_def startsWith_def trim_def is_space_def)
  have s: "includeFrontmatterTags example_settings"
    "\<not> includeFrontmatterTags (example_settings\<lparr>includeFrontmatterTags := False\<rparr>)"
    by (simp_all add: example_settings_def)
  show ?thesis
    using n s
      normalization_fixes_normalized [OF n, of "[(''tags'', JStr ''#news, #ai'')]" example_settings]
      normalization_fixes_normalized [OF n, of "[(''tags'', JStr ''#news, #ai'')]"
        "example_settings\<lparr>includeFrontmatterTags := False\<rparr>"]
    by presburger
qed

theorem normalization_counterexample:
  "normalized_tags [''a''] \<and>
   processFrontmatterTags (AList.update ''tags'' (JArr (map JStr [''a''])) [])
     (example_settings\<lparr>includeFrontmatterTags := False\<rparr>) = Inr [] \<and>
   processFrontmatterTags [(''tags'', JArr [JStr ''##a''])] example_settings = Inr [''#a''] \<and>
   processFrontmatterTags [(''tags'', JArr [JStr ''#a''])] example_settings = Inr [''a''] \<and>
   processContentTags (JArr [JStr ''##a'']) = Inr [''#a''] \<and>
   processContentTags (JArr [JStr ''#a'']) = Inr [''a'']"
  by code_simp












section \<open>Properties of the refresh pass\<close>

lemma update_not_Nil: "AList.update k v al \<noteq> []"
  by (cases al) auto

lemma set_prop_not_Nil: "set_prop ob k v \<noteq> [] \<longleftrightarrow> ob \<noteq> [] \<or> k \<noteq> ''__proto__''"
  by (cases ob) (auto simp: set_prop_def update_not_Nil)

lemma kept_entries:
  "list_ex (\<lambda>item. case item of JStr s \<Rightarrow> trim s \<noteq> [] | _ \<Rightarrow> False) items \<longleftrightarrow>
     filter nonblank_string items \<noteq> []"
  by (simp add: list_ex_iff filter_empty_conv nonblank_string_def)

lemma add_url_not_Nil:
  "add_url fm p acc \<noteq> [] \<longleftrightarrow>
     acc \<noteq> [] \<or> (p \<noteq> ''__proto__'' \<and> source_value_kept (get_prop fm p))"
proof (cases "get_prop fm p")
  case (JArr items)
  then show ?thesis
    by (auto simp: add_url_def source_value_kept_def Let_def set_prop_not_Nil kept_entries)
qed (auto simp: add_url_def source_value_kept_def Let_def set_prop_not_Nil)

lemma collect_urls_not_Nil:
  "collect_urls fm names acc \<noteq> [] \<longleftrightarrow>
     acc \<noteq> [] \<or> list_ex (\<lambda>p. p \<noteq> ''__proto__'' \<and> source_value_kept (get_prop fm p)) names"
proof (induction names arbitrary: acc)
  case Nil
  show ?case by simp
next
  case (Cons q names)
  show ?case
    unfolding collect_urls.simps Cons.IH add_url_not_Nil by auto
qed

lemma process_file_Some_iff:
  "(\<exists>a. process_file s ign f = Inr (Some a)) \<longleftrightarrow> qualifies s ign f"
proof (cases "isPathIgnored ign (case file_parent f of None \<Rightarrow> [] | Some p \<Rightarrow> p)")
  case True
  then show ?thesis by (simp add: process_file_def qualifies_def)
next
  case notIgnored: False
  show ?thesis
  proof (cases "file_cache f")
    case None
    with notIgnored show ?thesis by (simp add: process_file_def qualifies_def)
  next
    case (Some md)
    note md = this
    show ?thesis
    proof (cases "cache_frontmatter md")
      case None
      with notIgnored md show ?thesis by (simp add: process_file_def qualifies_def)
    next
      case (Some fm)
      note fm = this
      have urls: "0 < length (collect_urls fm (propertyNames s) []) \<longleftrightarrow>
          list_ex (\<lambda>p. p \<noteq> ''__proto__'' \<and> source_value_kept (get_prop fm p))
            (propertyNames s)"
        using collect_urls_not_Nil [of fm "propertyNames s" "[]"] by simp
      show ?thesis
      proof (cases "list_ex (\<lambda>p. p \<noteq> ''__proto__'' \<and> source_value_kept (get_prop fm p))
            (propertyNames s)")
        case False
        with notIgnored md fm urls show ?thesis
          by (simp add: process_file_def qualifies_def Let_def)
      next
        case kept: True
        show ?thesis
        proof (cases "file_read f")
          case (Inl e)
          with notIgnored md fm urls kept show ?thesis
            by (simp add: process_file_def qualifies_def Let_def)
        next
          case (Inr body)
          note rd = this
          show ?thesis
          proof (cases "processFrontmatterTags fm s")
            case (Inl e)
            with notIgnored md fm urls kept rd show ?thesis
              by (simp add: process_file_def qualifies_def Let_def)
          next
            case (Inr ftags)
            note ft = this
            show ?thesis
            proof (cases "processContentTags (cache_tags md)")
              case (Inl e)
              with notIgnored md fm urls kept rd ft show ?thesis
                by (simp add: process_file_def qualifies_def Let_def)
            next
              case (Inr ctags)
              with notIgnored md fm urls kept rd ft show ?thesis
                by (simp add: process_file_def qualifies_def Let_def)
            qed
          qed
        qed
      qed
    qed
  qed
qed

lemma process_file_path: "process_file s ign f = Inr (Some a) \<Longrightarrow> path a = file_path f"
  by (auto simp: process_file_def Let_def split: if_splits option.splits sum.splits)

lemma load_loop_paths:
  "map path (load_loop s ign files acc) =
     map path acc @ map file_path (filter (qualifies s ign) files)"
proof (induction files arbitrary: acc)
  case Nil
  show ?case by simp
next
  case (Cons f files)
  show ?case
  proof (cases "qualifies s ign f")
    case True
    then obtain a where a: "process_file s ign f = Inr (Some a)"
      using process_file_Some_iff by blast
    then show ?thesis
      using True Cons.IH [of "acc @ [a]"] process_file_path [OF a] by simp
  next
    case False
    then have "\<forall>a. process_file s ign f \<noteq> Inr (Some a)"
      using process_file_Some_iff by blast
    then have "(case process_file s ign f of Inr (Some b) \<Rightarrow> acc @ [b] | Inr None \<Rightarrow> acc
        | Inl e \<Rightarrow> acc) = acc"
      by (auto split: sum.splits option.splits)
    then show ?thesis
      using False Cons.IH [of acc] by simp
  qed
qed

text \<open>
  C1, as amended.  A refresh pass produces a record for a document exactly when the
  document is not path-excluded, has a front-matter block, some configured source
  property other than \<open>__proto__\<close> holds, as an own property or one inherited from
  \<open>Object.prototype\<close>, a truthy value that is either not an array (a scalar is kept as
  it is, untrimmed) or an array with an entry that is a string and not blank after
  \<open>trim\<close>, and neither reading the content nor normalizing the tags throws.  The
  records come in the order of the files.  The counterexample is a document whose only
  source value is a whitespace-only string, which gets a record, and a document with a
  URL whose \<open>tags\<close> is a number, which gets none.
\<close>

theorem loadArticles_records:
  "map path (loadArticles s ign files) = map file_path (filter (qualifies s ign) files) \<and>
   ((\<exists>a. process_file s ign f = Inr (Some a)) \<longleftrightarrow> qualifies s ign f)"
  by (simp add: loadArticles_def load_loop_paths process_file_Some_iff)

theorem loadArticles_records_witness:
  "map path (loadArticles example_settings [''archive'']
     [example_file ''empty'' [(''link'', JStr '''')],
      example_file ''blank'' [(''link'', JArr [JStr ''  '', JStr '''', JNum 3])],
      example_file ''clip'' [(''link'', JStr ''https://a.com/x''), (''tags'', JStr ''#news, #ai'')],
      example_file ''list'' [(''url'', JArr [JStr ''  '', JStr ''https://b.com''])],
      (example_file ''unread'' [(''url'', JStr ''https://c.com'')])\<lparr>file_read := Inl ReadError\<rparr>,
      (example_file ''bare'' [(''url'', JStr ''https://d.com'')])\<lparr>file_cache := None\<rparr>]) =
     [''clip.md'', ''list.md''] \<and>
   loadArticles example_settings [''Clips/'']
     [example_file ''clip'' [(''link'', JStr ''https://a.com/x'')]] = [] \<and>
   map path (loadArticles (example_settings\<lparr>sourcePropertyName := ''constructor''\<rparr>) []
     [example_file ''plain'' []]) = [''plain.md''] \<and>
   loadArticles (example_settings\<lparr>sourcePropertyName := ''__proto__''\<rparr>) []
     [example_file ''proto'' [(''__proto__'', JStr ''https://a.com'')]] = []"
proof -
  let ?files = "[example_file ''empty'' [(''link'', JStr '''')],
      example_file ''blank'' [(''link'', JArr [JStr ''  '', JStr '''', JNum 3])],
      example_file ''clip'' [(''link'', JStr ''https://a.com/x''), (''tags'', JStr ''#news, #ai'')],
      example_file ''list'' [(''url'', JArr [JStr ''  '', JStr ''https://b.com''])],
      (example_file ''unread'' [(''url'', JStr ''https://c.com'')])\<lparr>file_read := Inl ReadError\<rparr>,
      (example_file ''bare'' [(''url'', JStr ''https://d.com'')])\<lparr>file_cache := None\<rparr>]"
  have q: "map file_path (filter (qualifies example_settings [''archive'']) ?files) =
      [''clip.md'', ''list.md'']"
    by code_simp
  have a: "map path (loadArticles example_settings [''archive''] ?files) = [''clip.md'', ''list.md'']"
    using q loadArticles_records [of example_settings "[''archive'']" ?files] by simp
  have b: "loadArticles example_settings [''Clips/'']
     [example_file ''clip'' [(''link'', JStr ''https://a.com/x'')]] = []"
    by code_simp
  have c: "map path (loadArticles (example_settings\<lparr>sourcePropertyName := ''constructor''\<rparr>) []
     [example_file ''plain'' []]) = [''plain.md'']"
    by code_simp
  have d: "loadArticles (example_settings\<lparr>sourcePropertyName := ''__proto__''\<rparr>) []
     [example_file ''proto'' [(''__proto__'', JStr ''https://a.com'')]] = []"
    by code_simp
  from a b c d show ?thesis by blast
qed

theorem loadArticles_counterexample:
  "trim ''   '' = [] \<and>
   map path (loadArticles example_settings [] [example_file ''clip'' [(''url'', JStr ''   '')]]) =
     [''clip.md''] \<and>
   loadArticles example_settings []
     [example_file ''note'' [(''url'', JStr ''https://a.com''), (''tags'', JNum 2024)]] = []"
  by code_simp

section \<open>Properties of search\<close>

lemma lower_char_hash: "lower_char c = CHR ''#'' \<longleftrightarrow> c = CHR ''#''"
proof -
  have h: "(of_char (CHR ''#'') :: nat) = 35" by simp
  show ?thesis
  proof (cases "(65 \<le> (of_char c :: nat) \<and> (of_char c :: nat) \<le> 90) \<or>
      (192 \<le> (of_char c :: nat) \<and> (of_char c :: nat) \<le> 214) \<or>
      (216 \<le> (of_char c :: nat) \<and> (of_char c :: nat) \<le> 222)")
    case False
    have "lower_char c = c"
      unfolding lower_char_def Let_def using False by (rule if_not_P)
    then show ?thesis by simp
  next
    case True
    have lc: "lower_char c = char_of ((of_char c :: nat) + 32)"
      unfolding lower_char_def Let_def using True by (rule if_P)
    from True have small: "(of_char c :: nat) + 32 < 256" by auto
    have "(of_char (char_of ((of_char c :: nat) + 32)) :: nat) = (of_char c + 32) mod 256"
      by (rule of_char_of)
    with small have "(of_char (lower_char c) :: nat) = of_char c + 32"
      unfolding lc by simp
    with True have "(of_char (lower_char c) :: nat) \<noteq> 35" by auto
    with h have "lower_char c \<noteq> CHR ''#''" by metis
    moreover from True h have "c \<noteq> CHR ''#''" by auto
    ultimately show ?thesis by simp
  qed
qed

lemma hash_in_toLowerCase: "CHR ''#'' \<in> set (toLowerCase s) \<longleftrightarrow> CHR ''#'' \<in> set s"
proof -
  have "CHR ''#'' \<in> set (toLowerCase s) \<longleftrightarrow> (\<exists>c \<in> set s. lower_char c = CHR ''#'')"
    unfolding toLowerCase_def set_map image_iff by metis
  also have "\<dots> \<longleftrightarrow> (\<exists>c \<in> set s. c = CHR ''#'')"
    unfolding lower_char_hash ..
  also have "\<dots> \<longleftrightarrow> CHR ''#'' \<in> set s"
    by auto
  finally show ?thesis .
qed

lemma toLowerCase_hash_Cons: "toLowerCase (CHR ''#'' # name) = CHR ''#'' # toLowerCase name"
  using lower_char_hash [of "CHR ''#''"] by (simp add: toLowerCase_def)

lemma startsWith_set: "startsWith s t \<Longrightarrow> set t \<subseteq> set s"
  unfolding startsWith_def by (metis set_take_subset)

lemma js_includes_set: "js_includes s t \<Longrightarrow> set t \<subseteq> set s"
proof (induction s)
  case Nil
  then show ?case by simp
next
  case (Cons c cs)
  from Cons.prems have "startsWith (c # cs) t \<or> js_includes cs t" by simp
  then show ?case
  proof
    assume "startsWith (c # cs) t"
    then show ?thesis by (rule startsWith_set)
  next
    assume "js_includes cs t"
    then have "set t \<subseteq> set cs" by (rule Cons.IH)
    then show ?thesis by auto
  qed
qed

lemma no_hash_no_match:
  "CHR ''#'' \<notin> set s \<Longrightarrow> \<not> js_includes (toLowerCase s) (CHR ''#'' # t)"
proof
  assume n: "CHR ''#'' \<notin> set s" and i: "js_includes (toLowerCase s) (CHR ''#'' # t)"
  from js_includes_set [OF i] have "CHR ''#'' \<in> set (toLowerCase s)" by auto
  with n show False by (simp add: hash_in_toLowerCase)
qed

lemma search_matches_hashtag:
  "search_matches (CHR ''#'' # name) a \<longleftrightarrow>
     js_includes (toLowerCase (title a)) (CHR ''#'' # toLowerCase name) \<or>
     (\<exists>tag \<in> set (tags a). js_includes (toLowerCase tag) (CHR ''#'' # toLowerCase name)) \<or>
     (\<exists>tag \<in> set (tags a). toLowerCase tag = toLowerCase name)"
  by (simp add: search_matches_def toLowerCase_hash_Cons list_ex_iff startsWith_def)

text \<open>
  C5, as amended.  For a search term \<open>#\<close> followed by a name, the search predicate
  accepts a record exactly when some tag equals the name ignoring case, or the lower-cased
  title or some lower-cased tag contains the whole lower-cased term, its \<open>#\<close> included.
  So among records whose title and tags hold no \<open>#\<close>, exactly those with a tag equal to
  the name ignoring case are accepted, and a longer tag such as \<open>foobar\<close> alone does not
  make \<open>#foo\<close> match.  The counterexample is a record whose only tag is \<open>x#foobar\<close>,
  and one titled \<open>C#foo\<close> whose only tag is \<open>foobar\<close>: both are accepted.
\<close>

theorem search_hashtag:
  "(search_matches (CHR ''#'' # name) a \<longleftrightarrow>
      js_includes (toLowerCase (title a)) (CHR ''#'' # toLowerCase name) \<or>
      (\<exists>tag \<in> set (tags a). js_includes (toLowerCase tag) (CHR ''#'' # toLowerCase name)) \<or>
      (\<exists>tag \<in> set (tags a). toLowerCase tag = toLowerCase name)) \<and>
   (CHR ''#'' \<notin> set (title a) \<and> (\<forall>tag \<in> set (tags a). CHR ''#'' \<notin> set tag) \<longrightarrow>
      (search_matches (CHR ''#'' # name) a \<longleftrightarrow>
         (\<exists>tag \<in> set (tags a). toLowerCase tag = toLowerCase name)))"
proof (intro conjI impI)
  show "search_matches (CHR ''#'' # name) a \<longleftrightarrow>
      js_includes (toLowerCase (title a)) (CHR ''#'' # toLowerCase name) \<or>
      (\<exists>tag \<in> set (tags a). js_includes (toLowerCase tag) (CHR ''#'' # toLowerCase name)) \<or>
      (\<exists>tag \<in> set (tags a). toLowerCase tag = toLowerCase name)"
    by (rule search_matches_hashtag)
next
  assume n: "CHR ''#'' \<notin> set (title a) \<and> (\<forall>tag \<in> set (tags a). CHR ''#'' \<notin> set tag)"
  then have t: "\<not> js_includes (toLowerCase (title a)) (CHR ''#'' # toLowerCase name)"
    by (simp add: no_hash_no_match)
  from n have g: "\<forall>tag \<in> set (tags a). \<not> js_includes (toLowerCase tag) (CHR ''#'' # toLowerCase name)"
    by (simp add: no_hash_no_match)
  show "search_matches (CHR ''#'' # name) a \<longleftrightarrow>
      (\<exists>tag \<in> set (tags a). toLowerCase tag = toLowerCase name)"
    unfolding search_matches_hashtag using t g by blast
qed

theorem search_hashtag_witness:
  "search_matches ''#foo'' (example_article ''a'' [''Foo''] False) \<and>
   \<not> search_matches ''#foo'' (example_article ''b'' [''foobar''] False)"
proof -
  have l: "toLowerCase ''foo'' = ''foo''" "toLowerCase ''Foo'' = ''foo''"
    "toLowerCase ''foobar'' = ''foobar''"
    by code_simp+
  have n1: "CHR ''#'' \<notin> set (title (example_article ''a'' [''Foo''] False)) \<and>
      (\<forall>tag \<in> set (tags (example_article ''a'' [''Foo''] False)). CHR ''#'' \<notin> set tag)"
    by (simp add: example_article_def)
  have n2: "CHR ''#'' \<notin> set (title (example_article ''b'' [''foobar''] False)) \<and>
      (\<forall>tag \<in> set (tags (example_article ''b'' [''foobar''] False)). CHR ''#'' \<notin> set tag)"
    by (simp add: example_article_def)
  have t1: "tags (example_article ''a'' [''Foo''] False) = [''Foo'']"
    and t2: "tags (example_article ''b'' [''foobar''] False) = [''foobar'']"
    by (simp_all add: example_article_def)
  have m1: "search_matches ''#foo'' (example_article ''a'' [''Foo''] False) \<longleftrightarrow>
      (\<exists>tag \<in> set (tags (example_article ''a'' [''Foo''] False)).
         toLowerCase tag = toLowerCase ''foo'')"
    using search_hashtag [of "''foo''" "example_article ''a'' [''Foo''] False"] n1 by blast
  have m2: "search_matches ''#foo'' (example_article ''b'' [''foobar''] False) \<longleftrightarrow>
      (\<exists>tag \<in> set (tags (example_article ''b'' [''foobar''] False)).
         toLowerCase tag = toLowerCase ''foo'')"
    using search_hashtag [of "''foo''" "example_article ''b'' [''foobar''] False"] n2 by blast
  show ?thesis
    unfolding m1 m2 t1 t2 by (simp add: l)
qed

theorem search_hashtag_counterexample:
  "search_matches ''#foo'' (example_article ''a'' [''x#foobar''] False) \<and>
   \<not> list_ex (\<lambda>tag. toLowerCase tag = toLowerCase ''foo'')
        (tags (example_article ''a'' [''x#foobar''] False)) \<and>
   search_matches ''#foo'' (example_article ''C#foo'' [''foobar''] False) \<and>
   \<not> list_ex (\<lambda>tag. toLowerCase tag = toLowerCase ''foo'')
        (tags (example_article ''C#foo'' [''foobar''] False))"
  by code_simp

section \<open>Properties of the read-state toggle\<close>

lemma set_read_revert:
  assumes "row \<in> set articles" and "distinct (map path articles)"
  shows "set_read (path row) (read row) (set_read (path row) v articles) = articles"
proof -
  have same: "a = row" if "a \<in> set articles" and "path a = path row" for a
    using assms that by (meson distinct_map inj_on_def)
  have "(if path (if path a = path row then a\<lparr>read := v\<rparr> else a) = path row
         then (if path a = path row then a\<lparr>read := v\<rparr> else a)\<lparr>read := read row\<rparr>
         else (if path a = path row then a\<lparr>read := v\<rparr> else a)) = a"
    if "a \<in> set articles" for a
    using same [OF that] by (cases "path a = path row") simp_all
  then show ?thesis
    unfolding set_read_def map_map comp_def by (simp add: map_idI)
qed

lemma has_frontmatter_iff:
  "has_frontmatter h \<longleftrightarrow>
     (\<exists>md cached. host_cache h = Some md \<and> cache_frontmatter md = Some cached)"
  by (auto simp: has_frontmatter_def split: option.splits)

lemma write_through_no_frontmatter:
  "host_read h = Inr body \<Longrightarrow> host_write h = None \<Longrightarrow> \<not> has_frontmatter h \<Longrightarrow>
   write_through s h p c = Inr (Modify p (new_block (readPropertyName s) c @ body))"
  by (simp add: write_through_def)

lemma write_through_frontmatter:
  "host_read h = Inr body \<Longrightarrow> host_write h = None \<Longrightarrow> has_frontmatter h \<Longrightarrow>
   write_through s h p c = Inr (ProcessFrontMatter p (assign_read (readPropertyName s) c))"
  by (simp add: write_through_def)

lemma write_through_fails:
  "(\<exists>e. host_read h = Inl e) \<or> (\<exists>e. host_write h = Some e) \<Longrightarrow>
   \<exists>e. write_through s h p c = Inl e"
  by (auto simp: write_through_def Let_def split: sum.splits)

lemma assign_read_same:
  "name \<noteq> ''__proto__'' \<or> map_of fm name \<noteq> None \<Longrightarrow>
   get_prop (assign_read name c fm) name = JBool c"
  by (auto simp: assign_read_def get_prop_def set_prop_def update_conv')

lemma assign_read_other: "k \<noteq> name \<Longrightarrow> get_prop (assign_read name c fm) k = get_prop fm k"
  by (simp add: assign_read_def get_prop_def set_prop_def update_conv')

lemma assign_read_proto:
  "name = ''__proto__'' \<and> map_of fm name = None \<Longrightarrow> assign_read name c fm = fm"
  by (auto simp: assign_read_def set_prop_def)

text \<open>
  C8, as amended.  When the path of the row is a file, the handler first sets \<open>read\<close>
  of the in-memory record to the new value.  If the metadata cache reports no
  front-matter block, the one write is \<open>modify\<close> with a new block that holds only the
  read property, followed by the content as read; otherwise the one write is
  \<open>processFrontMatter\<close> with a callback that leaves every other front-matter field as it
  was and sets the read property, unless the property is named \<open>__proto__\<close> and is not
  an own property, when the callback changes nothing; nothing writes the body.  If the
  read or the write throws, no write goes through and the in-memory value is set to the
  negation of the new value: for a row of the catalog, with paths distinct and the
  checkbox reporting the negation of the row's \<open>read\<close>, the catalog after the failed
  toggle is the catalog before it.  The counterexample is the read property
  \<open>__proto__\<close>, where the front-matter after the toggle is the front-matter before it.
\<close>

theorem onChange_toggle:
  assumes "host_is_file h"
  shows "(host_read h = Inr body \<and> host_write h = None \<and>
          (host_cache h = None \<or> (\<exists>md. host_cache h = Some md \<and> cache_frontmatter md = None)) \<longrightarrow>
            onChange s h row isChecked articles =
              (map (\<lambda>a. if path a = path row then a\<lparr>read := isChecked\<rparr> else a) articles,
               [Modify (path row) (new_block (readPropertyName s) isChecked @ body)])) \<and>
         (host_read h = Inr body \<and> host_write h = None \<and>
          (\<exists>md cached. host_cache h = Some md \<and> cache_frontmatter md = Some cached) \<longrightarrow>
            onChange s h row isChecked articles =
              (map (\<lambda>a. if path a = path row then a\<lparr>read := isChecked\<rparr> else a) articles,
               [ProcessFrontMatter (path row) (assign_read (readPropertyName s) isChecked)])) \<and>
         (readPropertyName s \<noteq> ''__proto__'' \<or> map_of fm (readPropertyName s) \<noteq> None \<longrightarrow>
            get_prop (assign_read (readPropertyName s) isChecked fm) (readPropertyName s) =
              JBool isChecked) \<and>
         (\<forall>k. k \<noteq> readPropertyName s \<longrightarrow>
            get_prop (assign_read (readPropertyName s) isChecked fm) k = get_prop fm k) \<and>
         (readPropertyName s = ''__proto__'' \<and> map_of fm (readPropertyName s) = None \<longrightarrow>
            assign_read (readPropertyName s) isChecked fm = fm) \<and>
         (((\<exists>e. host_read h = Inl e) \<or> (\<exists>e. host_write h = Some e)) \<and>
          row \<in> set articles \<and> distinct (map path articles) \<and> isChecked = (\<not> read row) \<longrightarrow>
            onChange s h row isChecked articles = (articles, []))"
proof (intro conjI impI allI)
  assume a: "host_read h = Inr body \<and> host_write h = None \<and>
      (host_cache h = None \<or> (\<exists>md. host_cache h = Some md \<and> cache_frontmatter md = None))"
  then have "\<not> has_frontmatter h"
    unfolding has_frontmatter_iff by auto
  with a show "onChange s h row isChecked articles =
      (map (\<lambda>a. if path a = path row then a\<lparr>read := isChecked\<rparr> else a) articles,
       [Modify (path row) (new_block (readPropertyName s) isChecked @ body)])"
    using assms by (simp add: onChange_def write_through_no_frontmatter set_read_def)
next
  assume a: "host_read h = Inr body \<and> host_write h = None \<and>
      (\<exists>md cached. host_cache h = Some md \<and> cache_frontmatter md = Some cached)"
  then have "has_frontmatter h"
    unfolding has_frontmatter_iff by blast
  with a show "onChange s h row isChecked articles =
      (map (\<lambda>a. if path a = path row then a\<lparr>read := isChecked\<rparr> else a) articles,
       [ProcessFrontMatter (path row) (assign_read (readPropertyName s) isChecked)])"
    using assms by (simp add: onChange_def write_through_frontmatter set_read_def)
next
  assume "readPropertyName s \<noteq> ''__proto__'' \<or> map_of fm (readPropertyName s) \<noteq> None"
  then show "get_prop (assign_read (readPropertyName s) isChecked fm) (readPropertyName s) =
      JBool isChecked"
    by (rule assign_read_same)
next
  fix k
  assume "k \<noteq> readPropertyName s"
  then show "get_prop (assign_read (readPropertyName s) isChecked fm) k = get_prop fm k"
    by (rule assign_read_other)
next
  assume "readPropertyName s = ''__proto__'' \<and> map_of fm (readPropertyName s) = None"
  then show "assign_read (readPropertyName s) isChecked fm = fm"
    by (rule assign_read_proto)
next
  assume a: "((\<exists>e. host_read h = Inl e) \<or> (\<exists>e. host_write h = Some e)) \<and>
      row \<in> set articles \<and> distinct (map path articles) \<and> isChecked = (\<not> read row)"
  then obtain e where e: "write_through s h (path row) isChecked = Inl e"
    using write_through_fails by blast
  from a have r: "(\<not> isChecked) = read row" by simp
  have "onChange s h row isChecked articles =
      (set_read (path row) (\<not> isChecked) (set_read (path row) isChecked articles), [])"
    using assms e by (simp add: onChange_def)
  also have "\<dots> = (articles, [])"
    unfolding r using a by (simp add: set_read_revert)
  finally show "onChange s h row isChecked articles = (articles, [])" .
qed

theorem onChange_toggle_witness:
  "onChange example_settings (example_host None None) (example_article ''a'' [] False) True
     [example_article ''a'' [] False, example_article ''b'' [] False] =
     ([example_article ''a'' [] True, example_article ''b'' [] False],
      [Modify ''a.md''
         (''---'' @ [CHR 0x0A] @ ''read: true'' @ [CHR 0x0A] @ ''---'' @ [CHR 0x0A] @ ''body'')]) \<and>
   fst (onChange example_settings
     (example_host (Some [(''source'', JStr ''https://a.com'')]) None)
     (example_article ''a'' [] False) True
     [example_article ''a'' [] False, example_article ''b'' [] False]) =
     [example_article ''a'' [] True, example_article ''b'' [] False] \<and>
   map (\<lambda>w. written_frontmatter w [(''source'', JStr ''https://a.com'')])
     (snd (onChange example_settings
       (example_host (Some [(''source'', JStr ''https://a.com'')]) None)
       (example_article ''a'' [] False) True
       [example_article ''a'' [] False, example_article ''b'' [] False])) =
     [Some [(''source'', JStr ''https://a.com''), (''read'', JBool True)]] \<and>
   onChange example_settings
     (example_host (Some [(''source'', JStr ''https://a.com'')]) (Some WriteError))
     (example_article ''a'' [] False) True
     [example_article ''a'' [] False, example_article ''b'' [] False] =
     ([example_article ''a'' [] False, example_article ''b'' [] False], [])"
proof -
  let ?fm = "[(''source'', JStr ''https://a.com'')]"
  let ?arts = "[example_article ''a'' [] False, example_article ''b'' [] False]"
  have h: "host_is_file (example_host fm failure)" for fm failure
    by (simp add: example_host_def)
  have d: "distinct (map path ?arts)" "example_article ''a'' [] False \<in> set ?arts"
    by (simp_all add: example_article_def)
  have a: "onChange example_settings (example_host None None) (example_article ''a'' [] False) True
      ?arts =
     ([example_article ''a'' [] True, example_article ''b'' [] False],
      [Modify ''a.md''
         (''---'' @ [CHR 0x0A] @ ''read: true'' @ [CHR 0x0A] @ ''---'' @ [CHR 0x0A] @ ''body'')])"
    using onChange_toggle [OF h, of None None "''body''" example_settings
        "example_article ''a'' [] False" True ?arts ?fm]
    by (simp add: example_host_def example_article_def example_settings_def new_block_def
        bool_string_def)
  have b: "onChange example_settings (example_host (Some ?fm) None)
      (example_article ''a'' [] False) True ?arts =
     ([example_article ''a'' [] True, example_article ''b'' [] False],
      [ProcessFrontMatter ''a.md'' (assign_read ''read'' True)])"
    using onChange_toggle [OF h, of "Some ?fm" None "''body''" example_settings
        "example_article ''a'' [] False" True ?arts ?fm]
    by (simp add: example_host_def example_article_def example_settings_def)
  have w: "assign_read ''read'' True ?fm = [(''source'', JStr ''https://a.com''), (''read'', JBool True)]"
    by (simp add: assign_read_def set_prop_def)
  have c: "onChange example_settings (example_host (Some ?fm) (Some WriteError))
      (example_article ''a'' [] False) True ?arts = (?arts, [])"
    using d onChange_toggle [OF h, of "Some ?fm" "Some WriteError" "''body''" example_settings
        "example_article ''a'' [] False" True ?arts ?fm]
    by (simp add: example_host_def example_article_def)
  show ?thesis
    unfolding a b c by (simp add: written_frontmatter_def w)
qed

theorem onChange_toggle_counterexample:
  "map (\<lambda>w. written_frontmatter w [(''source'', JStr ''https://a.com'')])
     (snd (onChange (example_settings\<lparr>readPropertyName := ''__proto__''\<rparr>)
       (example_host (Some [(''source'', JStr ''https://a.com'')]) None)
       (example_article ''a'' [] False) True [example_article ''a'' [] False])) =
     [Some [(''source'', JStr ''https://a.com'')]] \<and>
   get_prop [(''source'', JStr ''https://a.com'')] ''__proto__'' \<noteq> JBool True"
  by (simp add: onChange_def write_through_def has_frontmatter_def example_host_def
      example_settings_def written_frontmatter_def assign_read_def set_prop_def get_prop_def
      object_prototype_keys_def)

end
